theory Spec2Isabelle
  imports Main
begin

section \<open>Data model of App.js\<close>

text \<open>
  The two marks a player can place. In the source they are the strings \<^verbatim>\<open>'X'\<close> and
  \<^verbatim>\<open>'O'\<close>.
\<close>

datatype mark = MarkX | MarkO

text \<open>
  The values a slot of the \<^verbatim>\<open>squares\<close> array can read as: \<^verbatim>\<open>null\<close> (written by
  \<^verbatim>\<open>Array(9).fill(null)\<close>), one of the two marks (written by \<^verbatim>\<open>next[index] = currentPlayer\<close>),
  or \<^verbatim>\<open>undefined\<close>. The program never stores \<^verbatim>\<open>undefined\<close>: inside an array
  \<open>Undefined\<close> stands for a hole, the slot that an assignment beyond the end of the array
  leaves between the old end and the written index, and that reads as \<^verbatim>\<open>undefined\<close>.
\<close>

datatype cell = Null | Undefined | Filled mark

text \<open>JavaScript truthiness of a cell value: only a non-empty string is truthy.\<close>

fun truthy :: "cell \<Rightarrow> bool" where
  "truthy (Filled m) = True"
| "truthy Null = False"
| "truthy Undefined = False"

text \<open>The read \<^verbatim>\<open>sq[i]\<close>: beyond the end of the array it yields \<^verbatim>\<open>undefined\<close>.\<close>

definition at :: "cell list \<Rightarrow> nat \<Rightarrow> cell" where
  "at sq i = (if i < length sq then sq ! i else Undefined)"

text \<open>
  The elements of the array after the write \<^verbatim>\<open>next[index] = v\<close> on the copy
  \<^verbatim>\<open>next = squares.slice()\<close>. In range the write replaces one slot. Beyond the end, an
  array index, which is a number below \<open>2\<^sup>3\<^sup>2 - 1 = 4294967295\<close>, extends the array and
  leaves holes. A larger number is no array index: the write then sets an ordinary
  property of the array object, and the elements and the length stay as they are. The
  model holds the elements of the array only and keeps no record of such a property, so
  it follows the program for clicks on array indices; the clicks of the page are on the
  rendered squares, whose positions are below the length.
\<close>

definition assign :: "cell list \<Rightarrow> nat \<Rightarrow> cell \<Rightarrow> cell list" where
  "assign sq i v =
     (if i < length sq then sq[i := v]
      else if i < 4294967295 then sq @ replicate (i - length sq) Undefined @ [v]
      else sq)"

text \<open>The object \<^verbatim>\<open>{ winner, line }\<close> returned by \<^verbatim>\<open>calculateWinner\<close>.\<close>

record winnerInfo =
  winner :: cell
  line :: "nat list"

text \<open>The component state: the two \<^verbatim>\<open>useState\<close> cells of \<^verbatim>\<open>App\<close>.\<close>

record game =
  squares :: "cell list"
  xIsNext :: bool

section \<open>Win detection\<close>

text \<open>The constant table \<^verbatim>\<open>lines\<close> of \<^verbatim>\<open>calculateWinner\<close>, in the order of the source.\<close>

definition lines :: "(nat \<times> nat \<times> nat) list" where
  "lines =
     [(0, 1, 2), (3, 4, 5), (6, 7, 8),
      (0, 3, 6), (1, 4, 7), (2, 5, 8),
      (0, 4, 8), (2, 4, 6)]"

text \<open>
  The \<^verbatim>\<open>for (const [a, b, c] of lines)\<close> loop over the part of the table still to be
  scanned: it returns at the first triple that passes the test, and falls through to
  \<^verbatim>\<open>{ winner: null, line: [] }\<close> when the table is exhausted.
\<close>

fun scan :: "cell list \<Rightarrow> (nat \<times> nat \<times> nat) list \<Rightarrow> winnerInfo" where
  "scan sq [] = \<lparr>winner = Null, line = []\<rparr>"
| "scan sq ((a, b, c) # rest) =
     (if truthy (at sq a) \<and> at sq a = at sq b \<and> at sq a = at sq c
      then \<lparr>winner = at sq a, line = [a, b, c]\<rparr>
      else scan sq rest)"

definition calculateWinner :: "cell list \<Rightarrow> winnerInfo" where
  "calculateWinner sq = scan sq lines"

section \<open>Derived state and handlers of App\<close>

text \<open>
  \<^verbatim>\<open>squares.every(Boolean)\<close>: \<^verbatim>\<open>every\<close> calls the predicate on the assigned slots only
  and skips holes, so the test fails exactly when some slot holds \<^verbatim>\<open>null\<close>.
\<close>

definition every_Boolean :: "cell list \<Rightarrow> bool" where
  "every_Boolean sq = list_all (\<lambda>v. v = Undefined \<or> truthy v) sq"

text \<open>The memoised \<^verbatim>\<open>isDraw\<close>, as a function of \<^verbatim>\<open>squares\<close> and \<^verbatim>\<open>winnerInfo.winner\<close>.\<close>

definition isDraw :: "cell list \<Rightarrow> cell \<Rightarrow> bool" where
  "isDraw sq w = (every_Boolean sq \<and> \<not> truthy w)"

definition currentPlayer :: "game \<Rightarrow> mark" where
  "currentPlayer s = (if xIsNext s then MarkX else MarkO)"

text \<open>
  A handler runs against the state of the render it was created in and hands the next
  state to the two setters; the model takes the state and returns the next one. When the
  guard rejects the click no setter is called and the state stays as it is. The memoised
  \<^verbatim>\<open>winnerInfo\<close> is \<^verbatim>\<open>calculateWinner(squares)\<close> of that same state. \<^verbatim>\<open>Board\<close> calls
  the handler with the position of a rendered square, a natural number.
\<close>

definition handleSquareClick :: "game \<Rightarrow> nat \<Rightarrow> game" where
  "handleSquareClick s index =
     (if truthy (at (squares s) index) \<or> truthy (winner (calculateWinner (squares s)))
      then s
      else \<lparr>squares = assign (squares s) index (Filled (currentPlayer s)),
            xIsNext = \<not> xIsNext s\<rparr>)"

definition handleReset :: "game \<Rightarrow> game" where
  "handleReset s = \<lparr>squares = replicate 9 Null, xIsNext = True\<rparr>"

text \<open>The state \<^verbatim>\<open>App\<close> starts in: the initial values of the two \<^verbatim>\<open>useState\<close> calls.\<close>

definition initial :: game where
  "initial = \<lparr>squares = replicate 9 Null, xIsNext = True\<rparr>"

text \<open>
  Text is modelled as the UTF-8 bytes of the string, which determine the string. The
  template literals interpolate a mark, which is the one-letter string it stands for.
  The apostrophe of the draw message is U+2019 (right single quotation mark) in the
  source, in UTF-8 the three bytes \<open>0xE2 0x80 0x99\<close>.
\<close>

fun mark_text :: "mark \<Rightarrow> string" where
  "mark_text MarkX = ''X''"
| "mark_text MarkO = ''O''"

text \<open>A cell value interpolated into a template literal.\<close>

fun cell_text :: "cell \<Rightarrow> string" where
  "cell_text (Filled m) = mark_text m"
| "cell_text Null = ''null''"
| "cell_text Undefined = ''undefined''"

definition draw_text :: string where
  "draw_text = ''It'' @ [CHR 0xE2, CHR 0x80, CHR 0x99] @ ''s a draw''"

definition statusText :: "game \<Rightarrow> string" where
  "statusText s =
     (let w = winner (calculateWinner (squares s)) in
      if truthy w then ''Winner: '' @ cell_text w
      else if isDraw (squares s) w then draw_text
      else ''Next player: '' @ mark_text (currentPlayer s))"

section \<open>The verdict of the specification\<close>

text \<open>
  The source has no verdict type. \<^verbatim>\<open>App\<close> derives two values from the board,
  \<^verbatim>\<open>winnerInfo\<close> and \<^verbatim>\<open>isDraw\<close>, and reads them in one order everywhere (status text,
  status class): a winner first, then a draw, otherwise the game goes on. \<open>evaluate\<close>
  packages that reading as the three variants the specification names.
\<close>

datatype verdict = Ongoing | Won mark "nat list" | Draw

definition evaluate :: "cell list \<Rightarrow> verdict" where
  "evaluate sq =
     (let info = calculateWinner sq in
      case winner info of
        Filled m \<Rightarrow> Won m (line info)
      | _ \<Rightarrow> if isDraw sq (winner info) then Draw else Ongoing)"

text \<open>
  A winning triple in the words of the specification: the three cells of the triple hold
  the same mark.
\<close>

definition winning_triple :: "cell list \<Rightarrow> mark \<Rightarrow> nat \<times> nat \<times> nat \<Rightarrow> bool" where
  "winning_triple sq m t =
     (case t of (a, b, c) \<Rightarrow> sq ! a = Filled m \<and> sq ! b = Filled m \<and> sq ! c = Filled m)"

definition has_win :: "cell list \<Rightarrow> nat \<times> nat \<times> nat \<Rightarrow> bool" where
  "has_win sq t = (winning_triple sq MarkX t \<or> winning_triple sq MarkO t)"

text \<open>The test of the loop body of \<^verbatim>\<open>calculateWinner\<close> on one triple.\<close>

fun passes :: "cell list \<Rightarrow> nat \<times> nat \<times> nat \<Rightarrow> bool" where
  "passes sq (a, b, c) = (truthy (at sq a) \<and> at sq a = at sq b \<and> at sq a = at sq c)"

section \<open>Sequences of user actions\<close>

text \<open>
  The page offers two actions: a click on the square \<open>index\<close>, which calls
  \<^verbatim>\<open>handleSquareClick(index)\<close>, and a click on the reset button, which calls
  \<^verbatim>\<open>handleReset()\<close>. A session is a list of actions applied in order to the initial state.
\<close>

datatype action = Place nat | Reset

fun step :: "game \<Rightarrow> action \<Rightarrow> game" where
  "step s (Place index) = handleSquareClick s index"
| "step s Reset = handleReset s"

definition run :: "action list \<Rightarrow> game" where
  "run acts = foldl step initial acts"

text \<open>
  The balance of marks that alternating turns maintain: as many \<^verbatim>\<open>'X'\<close> as \<^verbatim>\<open>'O'\<close> on
  the board when X moves next, one more \<^verbatim>\<open>'X'\<close> when O moves next.
\<close>

definition balanced :: "game \<Rightarrow> bool" where
  "balanced s =
     (count_list (squares s) (Filled MarkX) =
        count_list (squares s) (Filled MarkO) + (if xIsNext s then 0 else 1))"

text \<open>
  A board in the sense of the specification: nine cells, each empty or holding a mark.
  Clicks come from the nine rendered squares, so a placement has an index below 9.
\<close>

definition well_formed :: "cell list \<Rightarrow> bool" where
  "well_formed sq = (length sq = 9 \<and> Undefined \<notin> set sq)"

fun in_range :: "action \<Rightarrow> bool" where
  "in_range (Place index) = (index < 9)"
| "in_range Reset = True"

section \<open>Example boards and states\<close>

text \<open>X holds the top row and the left column at once; the board is full.\<close>

definition two_lines_board :: "cell list" where
  "two_lines_board =
     [Filled MarkX, Filled MarkX, Filled MarkX,
      Filled MarkX, Filled MarkO, Filled MarkO,
      Filled MarkX, Filled MarkO, Filled MarkO]"

text \<open>A full board without three in a row, as left by nine alternating moves.\<close>

definition drawn_board :: "cell list" where
  "drawn_board =
     [Filled MarkX, Filled MarkO, Filled MarkX,
      Filled MarkX, Filled MarkO, Filled MarkO,
      Filled MarkO, Filled MarkX, Filled MarkX]"

definition drawn_state :: game where
  "drawn_state = \<lparr>squares = drawn_board, xIsNext = False\<rparr>"

text \<open>X has just completed the top row; four squares are still empty.\<close>

definition won_state :: game where
  "won_state =
     \<lparr>squares =
        [Filled MarkX, Filled MarkX, Filled MarkX,
         Filled MarkO, Filled MarkO, Null,
         Null, Null, Null],
      xIsNext = False\<rparr>"

text \<open>The state after the opening move on square 0.\<close>

definition opened_state :: game where
  "opened_state =
     \<lparr>squares = [Filled MarkX, Null, Null, Null, Null, Null, Null, Null, Null],
      xIsNext = False\<rparr>"

section \<open>The scan of the triples\<close>

lemma scan_step:
  "scan sq (t # rest) =
     (if passes sq t
      then \<lparr>winner = at sq (fst t), line = [fst t, fst (snd t), snd (snd t)]\<rparr>
      else scan sq rest)"
  by (cases t) (simp only: scan.simps passes.simps fst_conv snd_conv)

declare passes.simps [simp del]
declare scan.simps(2) [simp del]

lemma scan_none:
  "\<forall>t \<in> set ls. \<not> passes sq t \<Longrightarrow> scan sq ls = \<lparr>winner = Null, line = []\<rparr>"
  by (induction ls) (simp_all add: scan_step)

lemma scan_first:
  "i < length ls \<Longrightarrow> ls ! i = (a, b, c) \<Longrightarrow> passes sq (a, b, c)
   \<Longrightarrow> \<forall>j<i. \<not> passes sq (ls ! j)
   \<Longrightarrow> scan sq ls = \<lparr>winner = at sq a, line = [a, b, c]\<rparr>"
proof (induction ls arbitrary: i)
  case Nil
  then show ?case by simp
next
  case (Cons t ls)
  show ?case
  proof (cases i)
    case 0
    with Cons.prems show ?thesis by (simp add: scan_step)
  next
    case (Suc k)
    with Cons.prems have "\<not> passes sq t" by auto
    moreover have "\<forall>j<k. \<not> passes sq (ls ! j)"
      using Cons.prems(4) Suc by auto
    then have "scan sq ls = \<lparr>winner = at sq a, line = [a, b, c]\<rparr>"
      using Cons.IH[of k] Cons.prems Suc by simp
    ultimately show ?thesis by (simp add: scan_step)
  qed
qed

lemma lines_in_range: "(a, b, c) \<in> set lines \<Longrightarrow> a < 9 \<and> b < 9 \<and> c < 9"
  by (auto simp: lines_def)

text \<open>On a board of nine cells the test of the loop is the specification's winning triple.\<close>

lemma passes_iff_has_win:
  assumes "length sq = 9" and "t \<in> set lines"
  shows "passes sq t = has_win sq t"
proof -
  obtain a b c where t: "t = (a, b, c)" by (cases t)
  with assms lines_in_range have "a < 9" "b < 9" "c < 9" by blast+
  with assms(1) have "at sq a = sq ! a" "at sq b = sq ! b" "at sq c = sq ! c"
    by (simp_all add: at_def)
  then show ?thesis
    unfolding t has_win_def winning_triple_def
    by (cases "sq ! a"; cases "sq ! b"; cases "sq ! c")
       (auto simp: passes.simps intro: mark.exhaust)
qed

lemma no_win_winner:
  assumes "length sq = 9" and "\<forall>t \<in> set lines. \<not> has_win sq t"
  shows "calculateWinner sq = \<lparr>winner = Null, line = []\<rparr>"
  unfolding calculateWinner_def
  using assms passes_iff_has_win by (intro scan_none) blast

lemma evaluate_Ongoing_iff:
  "evaluate sq = Ongoing \<longleftrightarrow>
     \<not> truthy (winner (calculateWinner sq)) \<and> \<not> every_Boolean sq"
  by (cases "winner (calculateWinner sq)") (simp_all add: evaluate_def isDraw_def)

lemma every_Boolean_truthy:
  assumes "every_Boolean sq" and "Undefined \<notin> set sq" and "i < length sq"
  shows "truthy (at sq i)"
proof -
  from assms(3) have mem: "sq ! i \<in> set sq" by simp
  with assms(1) have "sq ! i = Undefined \<or> truthy (sq ! i)"
    by (simp add: every_Boolean_def list_all_iff)
  moreover from mem assms(2) have "sq ! i \<noteq> Undefined" by metis
  ultimately show ?thesis using assms(3) by (simp add: at_def)
qed

section \<open>Win detection: the claims\<close>

text \<open>
  Claim C1. On a board of nine cells on which some triple of the table holds three equal
  marks, \<open>calculateWinner\<close> reports a win, and the triple it reports is the first
  winning triple in the order of the table (rows, then columns, then diagonals), with the
  mark that triple holds: there is a position \<open>i\<close> of the table whose triple is winning,
  no earlier position has a winning triple, and the result carries that triple and its
  mark. In the specification's words, \<open>evaluate\<close> is \<open>Won\<close> with that mark and that
  triple.
\<close>

theorem calculateWinner_reports_first_winning_triple:
  assumes len: "length sq = 9" and t: "t \<in> set lines" and win: "winning_triple sq m t"
  shows "\<exists>i a b c k. i < length lines \<and> lines ! i = (a, b, c)
           \<and> winning_triple sq k (a, b, c)
           \<and> (\<forall>j<i. \<not> has_win sq (lines ! j))
           \<and> calculateWinner sq = \<lparr>winner = Filled k, line = [a, b, c]\<rparr>
           \<and> evaluate sq = Won k [a, b, c]"
proof -
  from t obtain n where n: "n < length lines" "lines ! n = t"
    by (auto simp: in_set_conv_nth)
  define P where "P i = (i < length lines \<and> has_win sq (lines ! i))" for i
  from n win have "P n"
    by (cases m) (auto simp: P_def has_win_def)
  define i where "i = (LEAST i. P i)"
  have Pi: "P i" unfolding i_def using \<open>P n\<close> by (rule LeastI)
  have first: "\<not> P j" if "j < i" for j
    using that not_less_Least unfolding i_def by blast
  obtain a b c where abc: "lines ! i = (a, b, c)" by (cases "lines ! i")
  from Pi have ilt: "i < length lines" and hw: "has_win sq (a, b, c)"
    by (simp_all add: P_def abc)
  then obtain k where k: "winning_triple sq k (a, b, c)"
    by (auto simp: has_win_def)
  have mem: "(a, b, c) \<in> set lines" using ilt abc by (metis nth_mem)
  have pass: "passes sq (a, b, c)" using passes_iff_has_win[OF len mem] hw by simp
  have nohw: "\<forall>j<i. \<not> has_win sq (lines ! j)"
    using first ilt by (auto simp: P_def)
  have nopass: "\<forall>j<i. \<not> passes sq (lines ! j)"
  proof (intro allI impI)
    fix j assume "j < i"
    with nohw ilt have "j < length lines" and "\<not> has_win sq (lines ! j)" by simp_all
    then show "\<not> passes sq (lines ! j)"
      using passes_iff_has_win[OF len, of "lines ! j"] by simp
  qed
  have "a < 9" using lines_in_range[OF mem] by simp
  then have "at sq a = Filled k" using k len by (simp add: at_def winning_triple_def)
  then have cw: "calculateWinner sq = \<lparr>winner = Filled k, line = [a, b, c]\<rparr>"
    unfolding calculateWinner_def using scan_first[OF ilt abc pass nopass] by simp
  then have "evaluate sq = Won k [a, b, c]" by (simp add: evaluate_def)
  with ilt abc k nohw cw show ?thesis by blast
qed

text \<open>
  On the board where X holds both the top row and the left column, the left column is a
  winning triple, and the theorem forces the answer to be the top row, which comes first
  in the table.
\<close>

theorem calculateWinner_reports_first_winning_triple_witness:
  "calculateWinner two_lines_board = \<lparr>winner = Filled MarkX, line = [0, 1, 2]\<rparr>
   \<and> evaluate two_lines_board = Won MarkX [0, 1, 2]"
proof -
  have len: "length two_lines_board = 9" by (simp add: two_lines_board_def)
  have mem: "(0, 3, 6) \<in> set lines" by (simp add: lines_def)
  have col: "winning_triple two_lines_board MarkX (0, 3, 6)"
    by (simp add: winning_triple_def two_lines_board_def)
  have row: "has_win two_lines_board (lines ! 0)"
    by (simp add: has_win_def winning_triple_def two_lines_board_def lines_def)
  from calculateWinner_reports_first_winning_triple[OF len mem col]
  obtain i a b c k where i: "lines ! i = (a, b, c)"
    and k: "winning_triple two_lines_board k (a, b, c)"
    and first: "\<forall>j<i. \<not> has_win two_lines_board (lines ! j)"
    and res: "calculateWinner two_lines_board = \<lparr>winner = Filled k, line = [a, b, c]\<rparr>"
      "evaluate two_lines_board = Won k [a, b, c]"
    by blast
  from first row have "i = 0" by (cases i) auto
  with i have abc: "a = 0" "b = 1" "c = 2" by (simp_all add: lines_def)
  with k have "k = MarkX" by (simp add: winning_triple_def two_lines_board_def)
  with res abc show ?thesis by simp
qed

text \<open>
  Claim C3. On a board of nine cells without a winning triple on which every cell holds a
  mark, \<open>evaluate\<close> is \<open>Draw\<close>: \<open>calculateWinner\<close> reports no winner and \<open>isDraw\<close>
  is true.
\<close>

theorem evaluate_full_board_without_win_is_Draw:
  assumes "length sq = 9"
    and "\<forall>t \<in> set lines. \<not> has_win sq t"
    and "set sq \<subseteq> {Filled MarkX, Filled MarkO}"
  shows "evaluate sq = Draw
       \<and> winner (calculateWinner sq) = Null \<and> isDraw sq (winner (calculateWinner sq))"
proof -
  from assms(3) have "\<forall>v \<in> set sq. v = Undefined \<or> truthy v" by auto
  then have "every_Boolean sq" by (simp add: every_Boolean_def list_all_iff)
  with no_win_winner[OF assms(1,2)] show ?thesis
    by (simp add: evaluate_def isDraw_def)
qed

theorem evaluate_full_board_without_win_is_Draw_witness:
  "evaluate drawn_board = Draw \<and> isDraw drawn_board (winner (calculateWinner drawn_board))"
proof -
  have len: "length drawn_board = 9" by (simp add: drawn_board_def)
  have nowin: "\<forall>t \<in> set lines. \<not> has_win drawn_board t"
    by (simp add: lines_def has_win_def winning_triple_def drawn_board_def)
  have full: "set drawn_board \<subseteq> {Filled MarkX, Filled MarkO}"
    by (simp add: drawn_board_def)
  from evaluate_full_board_without_win_is_Draw[OF len nowin full] show ?thesis by blast
qed

text \<open>
  Claim C4. On a board of nine cells without a winning triple on which some cell is empty
  (it holds \<^verbatim>\<open>null\<close>), \<open>evaluate\<close> is \<open>Ongoing\<close>: \<open>calculateWinner\<close> reports no
  winner and \<open>isDraw\<close> is false.
\<close>

theorem evaluate_open_board_without_win_is_Ongoing:
  assumes "length sq = 9"
    and "\<forall>t \<in> set lines. \<not> has_win sq t"
    and "i < 9" and "sq ! i = Null"
  shows "evaluate sq = Ongoing
       \<and> winner (calculateWinner sq) = Null \<and> \<not> isDraw sq (winner (calculateWinner sq))"
proof -
  from assms(1,3,4) have "Null \<in> set sq" by (metis nth_mem)
  then have "\<not> every_Boolean sq" by (auto simp: every_Boolean_def list_all_iff)
  with no_win_winner[OF assms(1,2)] show ?thesis
    by (simp add: evaluate_def isDraw_def)
qed

theorem evaluate_open_board_without_win_is_Ongoing_witness:
  "evaluate (squares opened_state) = Ongoing"
proof -
  have len: "length (squares opened_state) = 9" by (simp add: opened_state_def)
  have nowin: "\<forall>t \<in> set lines. \<not> has_win (squares opened_state) t"
    by (simp add: lines_def has_win_def winning_triple_def opened_state_def)
  have empty: "squares opened_state ! 1 = Null" by (simp add: opened_state_def)
  from evaluate_open_board_without_win_is_Ongoing[OF len nowin _ empty] show ?thesis by simp
qed

section \<open>The handlers: the claims\<close>

text \<open>
  Claim C2. In a state with a board of nine cells, each empty or holding a mark, whose
  verdict is not \<open>Ongoing\<close>,
  that is, won or drawn, a click on any of the squares 0 to 8 returns the state as it is:
  neither the board nor the turn changes. After a win the guard on the winner rejects the
  click, also on an empty square; in a draw every cell is occupied.
\<close>

theorem handleSquareClick_ignored_when_game_over:
  assumes "length (squares s) = 9" and "Undefined \<notin> set (squares s)"
    and "index < 9" and "evaluate (squares s) \<noteq> Ongoing"
  shows "handleSquareClick s index = s"
proof (cases "truthy (winner (calculateWinner (squares s)))")
  case True
  then show ?thesis by (simp add: handleSquareClick_def)
next
  case False
  with assms(4) have "every_Boolean (squares s)" by (simp add: evaluate_Ongoing_iff)
  then have "truthy (at (squares s) index)"
    using assms(1,2,3) by (intro every_Boolean_truthy) simp_all
  then show ?thesis by (simp add: handleSquareClick_def)
qed

text \<open>
  The won state has square 8 empty and the click on it is ignored; in the drawn state the
  click on square 4 is ignored.
\<close>

theorem handleSquareClick_ignored_when_game_over_witness:
  "evaluate (squares won_state) = Won MarkX [0, 1, 2]
   \<and> squares won_state ! 8 = Null
   \<and> handleSquareClick won_state 8 = won_state
   \<and> evaluate (squares drawn_state) = Draw
   \<and> handleSquareClick drawn_state 4 = drawn_state"
proof -
  have won: "evaluate (squares won_state) = Won MarkX [0, 1, 2]" by code_simp
  have drawn: "evaluate (squares drawn_state) = Draw" by code_simp
  have len: "length (squares won_state) = 9" "length (squares drawn_state) = 9"
    by (simp_all add: won_state_def drawn_state_def drawn_board_def)
  have holes: "Undefined \<notin> set (squares won_state)" "Undefined \<notin> set (squares drawn_state)"
    by (simp_all add: won_state_def drawn_state_def drawn_board_def)
  have empty: "squares won_state ! 8 = Null" by (simp add: won_state_def)
  have "handleSquareClick won_state 8 = won_state"
    by (rule handleSquareClick_ignored_when_game_over[OF len(1) holes(1)]) (simp_all add: won)
  moreover have "handleSquareClick drawn_state 4 = drawn_state"
    by (rule handleSquareClick_ignored_when_game_over[OF len(2) holes(2)]) (simp_all add: drawn)
  ultimately show ?thesis using won drawn empty by simp
qed

text \<open>
  Claim C5. In every state with a board of nine cells, a click on a square 0 to 8 that
  already holds a mark returns the state as it is. The handler returns a state in every
  case: there is no error to raise.
\<close>

theorem handleSquareClick_ignored_on_occupied_cell:
  assumes "length (squares s) = 9" and "index < 9" and "squares s ! index = Filled m"
  shows "handleSquareClick s index = s"
  using assms by (simp add: handleSquareClick_def at_def)

theorem handleSquareClick_ignored_on_occupied_cell_witness:
  "handleSquareClick opened_state 0 = opened_state"
proof -
  have len: "length (squares opened_state) = 9" by (simp add: opened_state_def)
  have occ: "squares opened_state ! 0 = Filled MarkX" by (simp add: opened_state_def)
  show ?thesis
    by (rule handleSquareClick_ignored_on_occupied_cell[OF len _ occ]) simp
qed

text \<open>
  Claim C6. Whatever the state, \<open>handleReset\<close> yields the board of nine empty cells with
  X to move, which is the initial state.
\<close>

theorem handleReset_clears_board:
  "handleReset s =
     \<lparr>squares = [Null, Null, Null, Null, Null, Null, Null, Null, Null], xIsNext = True\<rparr>
   \<and> currentPlayer (handleReset s) = MarkX
   \<and> handleReset s = initial"
  by (simp add: handleReset_def currentPlayer_def initial_def numeral_eq_Suc)

theorem handleReset_clears_board_witness:
  "handleReset won_state =
     \<lparr>squares = [Null, Null, Null, Null, Null, Null, Null, Null, Null], xIsNext = True\<rparr>"
  using handleReset_clears_board[of won_state] by simp

text \<open>
  Claim C7. In a state with a board of nine cells and a square \<open>index\<close> from 0 to 8: when
  the verdict is \<open>Ongoing\<close> and the square is empty, the click writes the mark of the
  player whose turn it is, X when \<open>xIsNext\<close> holds and O otherwise, into exactly that
  square and flips the turn; in every other case, where the placement is rejected, the
  turn stays as it was.
\<close>

theorem handleSquareClick_places_and_flips:
  assumes "length (squares s) = 9" and "Undefined \<notin> set (squares s)" and "index < 9"
  shows "(evaluate (squares s) = Ongoing \<and> squares s ! index = Null \<longrightarrow>
            handleSquareClick s index =
              \<lparr>squares = (squares s)[index := Filled (if xIsNext s then MarkX else MarkO)],
               xIsNext = \<not> xIsNext s\<rparr>)
       \<and> (\<not> (evaluate (squares s) = Ongoing \<and> squares s ! index = Null) \<longrightarrow>
            xIsNext (handleSquareClick s index) = xIsNext s)"
proof (intro conjI impI)
  assume "evaluate (squares s) = Ongoing \<and> squares s ! index = Null"
  then show "handleSquareClick s index =
      \<lparr>squares = (squares s)[index := Filled (if xIsNext s then MarkX else MarkO)],
       xIsNext = \<not> xIsNext s\<rparr>"
    using assms(1,3)
    by (simp add: evaluate_Ongoing_iff handleSquareClick_def at_def assign_def
        currentPlayer_def)
next
  assume rej: "\<not> (evaluate (squares s) = Ongoing \<and> squares s ! index = Null)"
  have "handleSquareClick s index = s"
  proof (cases "evaluate (squares s) = Ongoing")
    case True
    with rej have "squares s ! index \<noteq> Null" by simp
    moreover have "squares s ! index \<in> set (squares s)" using assms(1,3) by simp
    with assms(2) have "squares s ! index \<noteq> Undefined" by metis
    ultimately have "truthy (squares s ! index)" by (cases "squares s ! index") simp_all
    then show ?thesis using assms(1,3) by (simp add: handleSquareClick_def at_def)
  next
    case False
    show ?thesis
    proof (cases "truthy (winner (calculateWinner (squares s)))")
      case True
      then show ?thesis by (simp add: handleSquareClick_def)
    next
      case nw: False
      with False have "every_Boolean (squares s)" by (simp add: evaluate_Ongoing_iff)
      then have "truthy (at (squares s) index)"
        using assms by (intro every_Boolean_truthy) simp_all
      then show ?thesis by (simp add: handleSquareClick_def)
    qed
  qed
  then show "xIsNext (handleSquareClick s index) = xIsNext s" by simp
qed

text \<open>
  X's opening click on square 0 writes X and hands the turn to O. After it, O's click on
  the empty square 4 writes O and hands the turn back, and O's click on the occupied
  square 0 leaves the turn with O.
\<close>

theorem handleSquareClick_places_and_flips_witness:
  "handleSquareClick initial 0 =
     \<lparr>squares = [Filled MarkX, Null, Null, Null, Null, Null, Null, Null, Null],
      xIsNext = False\<rparr>
   \<and> handleSquareClick opened_state 4 =
     \<lparr>squares = [Filled MarkX, Null, Null, Null, Filled MarkO, Null, Null, Null, Null],
      xIsNext = True\<rparr>
   \<and> xIsNext (handleSquareClick opened_state 0) = False"
proof -
  have len0: "length (squares initial) = 9" by (simp add: initial_def)
  have holes0: "Undefined \<notin> set (squares initial)" by (simp add: initial_def)
  have ongoing0: "evaluate (squares initial) = Ongoing" by code_simp
  have empty0: "squares initial ! 0 = Null" by (simp add: initial_def numeral_eq_Suc)
  have turn0: "xIsNext initial" by (simp add: initial_def)
  have board0: "(squares initial)[0 := Filled MarkX] =
      [Filled MarkX, Null, Null, Null, Null, Null, Null, Null, Null]"
    by (simp add: initial_def numeral_eq_Suc)
  have len: "length (squares opened_state) = 9" by (simp add: opened_state_def)
  have holes: "Undefined \<notin> set (squares opened_state)" by (simp add: opened_state_def)
  have ongoing: "evaluate (squares opened_state) = Ongoing" by code_simp
  have empty: "squares opened_state ! 4 = Null" by (simp add: opened_state_def)
  have occ: "squares opened_state ! 0 \<noteq> Null" by (simp add: opened_state_def)
  have turn: "\<not> xIsNext opened_state" by (simp add: opened_state_def)
  have board: "(squares opened_state)[4 := Filled MarkO] =
      [Filled MarkX, Null, Null, Null, Filled MarkO, Null, Null, Null, Null]"
    by (simp add: opened_state_def)
  have "handleSquareClick initial 0 =
      \<lparr>squares = (squares initial)[0 := Filled MarkX], xIsNext = False\<rparr>"
    using handleSquareClick_places_and_flips[OF len0 holes0, of 0] ongoing0 empty0 turn0
    by simp
  moreover have "handleSquareClick opened_state 4 =
      \<lparr>squares = (squares opened_state)[4 := Filled MarkO], xIsNext = True\<rparr>"
    using handleSquareClick_places_and_flips[OF len holes, of 4] ongoing empty turn
    by simp
  moreover have "xIsNext (handleSquareClick opened_state 0) = False"
    using handleSquareClick_places_and_flips[OF len holes, of 0] occ turn by simp
  ultimately show ?thesis by (simp only: board0 board simp_thms)
qed

text \<open>
  Claim C10. On a board of nine cells, a click on square \<open>index\<close> leaves every other
  square \<open>j\<close> with the value it had, and the board keeps its nine cells. This holds for
  an accepted placement, which writes one cell of a copy of the board, and trivially for
  a rejected one.
\<close>

theorem handleSquareClick_frame:
  assumes "length (squares s) = 9" and "index < 9" and "j < 9" and "j \<noteq> index"
  shows "squares (handleSquareClick s index) ! j = squares s ! j
       \<and> length (squares (handleSquareClick s index)) = 9"
  using assms by (simp add: handleSquareClick_def assign_def)

text \<open>
  An accepted placement on square 4 changes the state and leaves squares 0 and 8 alone.
\<close>

theorem handleSquareClick_frame_witness:
  "handleSquareClick opened_state 4 \<noteq> opened_state
   \<and> squares (handleSquareClick opened_state 4) ! 0 = Filled MarkX
   \<and> squares (handleSquareClick opened_state 4) ! 8 = Null
   \<and> length (squares (handleSquareClick opened_state 4)) = 9"
proof -
  have len: "length (squares opened_state) = 9" by (simp add: opened_state_def)
  have changed: "handleSquareClick opened_state 4 \<noteq> opened_state" by code_simp
  have old: "squares opened_state ! 0 = Filled MarkX" "squares opened_state ! 8 = Null"
    by (simp_all add: opened_state_def)
  show ?thesis
    using handleSquareClick_frame[OF len, of 4 0] handleSquareClick_frame[OF len, of 4 8]
      changed old
    by simp
qed

section \<open>The status line: the claim\<close>

text \<open>
  Claim C8, as amended. The status text is \<^verbatim>\<open>Next player: \<close> followed by the current
  player's mark when the verdict is \<open>Ongoing\<close>, \<^verbatim>\<open>Winner: \<close> followed by the winner's
  mark when it is \<open>Won\<close>, and the draw message when it is \<open>Draw\<close>. The apostrophe of
  the draw message is the typographic one, U+2019, not the ASCII apostrophe U+0027.
\<close>

theorem statusText_by_verdict:
  "statusText s =
     (case evaluate (squares s) of
        Ongoing \<Rightarrow> ''Next player: '' @ mark_text (currentPlayer s)
      | Won m l \<Rightarrow> ''Winner: '' @ mark_text m
      | Draw \<Rightarrow> ''It'' @ [CHR 0xE2, CHR 0x80, CHR 0x99] @ ''s a draw'')"
  by (cases "winner (calculateWinner (squares s))")
     (simp_all add: statusText_def evaluate_def draw_text_def Let_def)

theorem statusText_by_verdict_witness:
  "statusText initial = ''Next player: X''
   \<and> statusText opened_state = ''Next player: O''
   \<and> statusText won_state = ''Winner: X''
   \<and> statusText drawn_state = ''It'' @ [CHR 0xE2, CHR 0x80, CHR 0x99] @ ''s a draw''"
proof -
  have v: "evaluate (squares initial) = Ongoing" "evaluate (squares opened_state) = Ongoing"
    "evaluate (squares won_state) = Won MarkX [0, 1, 2]"
    "evaluate (squares drawn_state) = Draw"
    by code_simp+
  show ?thesis
    using statusText_by_verdict[of initial] statusText_by_verdict[of opened_state]
      statusText_by_verdict[of won_state] statusText_by_verdict[of drawn_state] v
    by (simp add: currentPlayer_def initial_def opened_state_def)
qed

text \<open>
  Claim C8 as stated fails on the draw message: in the drawn state the status text is not
  the string with the ASCII apostrophe.
\<close>

theorem statusText_draw_not_ascii_apostrophe:
  "evaluate (squares drawn_state) = Draw \<and> statusText drawn_state \<noteq> ''It's a draw''"
proof -
  have "evaluate (squares drawn_state) = Draw" by code_simp
  moreover have "statusText drawn_state = draw_text" by code_simp
  ultimately show ?thesis by (simp add: draw_text_def)
qed

section \<open>Sessions: the claim\<close>

lemma count_list_update_blank:
  assumes "i < length sq" and "\<not> truthy (sq ! i)"
  shows "count_list (sq[i := Filled p]) (Filled m) =
           count_list sq (Filled m) + (if p = m then 1 else 0)"
  using assms
proof (induction sq arbitrary: i)
  case Nil
  then show ?case by simp
next
  case (Cons v sq)
  show ?case
  proof (cases i)
    case 0
    with Cons.prems show ?thesis by (cases v) auto
  next
    case (Suc k)
    with Cons show ?thesis by simp
  qed
qed

lemma balanced_initial: "balanced initial"
  by (simp add: balanced_def initial_def)

lemma balanced_handleReset: "balanced (handleReset s)"
  by (simp add: balanced_def handleReset_def)

lemma balanced_handleSquareClick:
  assumes "balanced s" and "index < length (squares s)"
  shows "balanced (handleSquareClick s index)"
proof (cases "truthy (at (squares s) index) \<or> truthy (winner (calculateWinner (squares s)))")
  case True
  with assms(1) show ?thesis by (simp add: handleSquareClick_def)
next
  case False
  with assms(2) have blank: "\<not> truthy (squares s ! index)" by (simp add: at_def)
  from False assms(2) have "handleSquareClick s index =
      \<lparr>squares = (squares s)[index := Filled (currentPlayer s)], xIsNext = \<not> xIsNext s\<rparr>"
    by (simp add: handleSquareClick_def assign_def)
  with assms(1) show ?thesis
    by (simp add: balanced_def count_list_update_blank[OF assms(2) blank] currentPlayer_def)
qed

text \<open>
  The boards that a session of clicks on the nine squares and resets reaches are
  well formed, so the hypotheses on the board in the claims above hold in every state the
  page can be in.
\<close>

lemma well_formed_handleSquareClick:
  assumes "well_formed (squares s)" and "index < 9"
  shows "well_formed (squares (handleSquareClick s index))"
proof -
  have "set ((squares s)[index := Filled p]) \<subseteq> insert (Filled p) (set (squares s))" for p
    by (rule set_update_subset_insert)
  with assms show ?thesis
    by (auto simp: well_formed_def handleSquareClick_def assign_def)
qed

lemma step_keeps_invariants:
  assumes "well_formed (squares s)" and "balanced s" and "in_range a"
  shows "well_formed (squares (step s a)) \<and> balanced (step s a)"
proof (cases a)
  case (Place index)
  with assms(3) have "index < 9" by simp
  moreover from assms(1) have "length (squares s) = 9" by (simp add: well_formed_def)
  ultimately show ?thesis
    using Place assms(1,2)
    by (simp add: well_formed_handleSquareClick balanced_handleSquareClick)
next
  case Reset
  then show ?thesis
    by (simp add: balanced_handleReset) (simp add: handleReset_def well_formed_def)
qed

lemma foldl_keeps_invariants:
  "well_formed (squares s) \<Longrightarrow> balanced s \<Longrightarrow> list_all in_range acts
   \<Longrightarrow> well_formed (squares (foldl step s acts)) \<and> balanced (foldl step s acts)"
proof (induction acts arbitrary: s)
  case Nil
  then show ?case by simp
next
  case (Cons a acts)
  from Cons.prems have "well_formed (squares (step s a)) \<and> balanced (step s a)"
    by (intro step_keeps_invariants) simp_all
  with Cons.IH[of "step s a"] Cons.prems(3) show ?case by simp
qed

lemma well_formed_run: "list_all in_range acts \<Longrightarrow> well_formed (squares (run acts))"
  unfolding run_def
  using foldl_keeps_invariants[of initial acts] balanced_initial
  by (simp add: initial_def well_formed_def)

text \<open>
  Claim C9. In the state reached from the initial state by any sequence of placements on
  the squares 0 to 8 and resets, the board holds as many X as O when X moves next, and
  exactly one more X than O when O moves next.
\<close>

theorem run_keeps_marks_balanced:
  assumes "list_all in_range acts"
  shows "count_list (squares (run acts)) (Filled MarkX) =
     count_list (squares (run acts)) (Filled MarkO) + (if xIsNext (run acts) then 0 else 1)"
proof -
  have "well_formed (squares initial)" by (simp add: initial_def well_formed_def)
  then have "balanced (foldl step initial acts)"
    using foldl_keeps_invariants[of initial acts] balanced_initial assms by simp
  then show ?thesis by (simp add: balanced_def run_def)
qed

text \<open>
  A session with a rejected click, and one that ends with a reset.
\<close>

theorem run_keeps_marks_balanced_witness:
  "xIsNext (run [Place 0, Place 4, Place 0, Place 8]) = False
   \<and> count_list (squares (run [Place 0, Place 4, Place 0, Place 8])) (Filled MarkX) = 2
   \<and> count_list (squares (run [Place 0, Place 4, Place 0, Place 8])) (Filled MarkO) = 1
   \<and> xIsNext (run [Place 0, Place 4, Reset]) = True
   \<and> count_list (squares (run [Place 0, Place 4, Reset])) (Filled MarkX) = 0
   \<and> count_list (squares (run [Place 0, Place 4, Reset])) (Filled MarkO) = 0"
proof -
  have ok: "list_all in_range [Place 0, Place 4, Place 0, Place 8]"
    "list_all in_range [Place 0, Place 4, Reset]"
    by simp_all
  have turn: "xIsNext (run [Place 0, Place 4, Place 0, Place 8]) = False"
    "xIsNext (run [Place 0, Place 4, Reset]) = True"
    by code_simp+
  have o: "count_list (squares (run [Place 0, Place 4, Place 0, Place 8])) (Filled MarkO) = 1"
    "count_list (squares (run [Place 0, Place 4, Reset])) (Filled MarkO) = 0"
    by code_simp+
  show ?thesis
    using run_keeps_marks_balanced[OF ok(1)] run_keeps_marks_balanced[OF ok(2)] turn o
    by simp
qed

end
